theory Spec2Isabelle
  imports Main
begin

section \<open>The Notifier helper of coc-explorer\<close>

text \<open>
  The source is the class \<^verbatim>\<open>Notifier\<close> (70 lines of TypeScript). A Notifier object owns a
  mutable array \<^verbatim>\<open>notifyFns\<close> of zero-argument closures; \<^verbatim>\<open>concat\<close> pushes onto
  the receiver's array and returns the receiver, so object identity and aliasing are
  observable. The embedding therefore uses an explicit store: a Notifier is a reference,
  and the store maps each reference to the current contents of its \<^verbatim>\<open>notifyFns\<close>.
\<close>

subsection \<open>Data\<close>

type_synonym exn = string

text \<open>A reference to a Notifier object (its identity).\<close>

type_synonym ref = nat

text \<open>
  A notify function \<^verbatim>\<open>() => void\<close> is supplied by the caller. What the helper can observe
  of such a closure is that it is called, which remote calls it sends to the host, and
  whether it returns or throws: \<open>Callback calls None\<close> sends \<open>calls\<close> and returns,
  \<open>Callback calls (Some e)\<close> sends \<open>calls\<close> and then throws \<open>e\<close>. Closures that
  re-enter the Notifier API or call pause/resume themselves are outside the model.
\<close>

datatype callback = Callback (cb_calls: "string list") (cb_throws: "exn option")

text \<open>\<^verbatim>\<open>type NotifierCell = Notifier | void | undefined | null\<close>\<close>

datatype cell = Present ref | Undefined | Null

text \<open>
  A \<^verbatim>\<open>Promise<NotifierCell>\<close> in its eventual state: fulfilled with a cell, rejected with
  a reason, or never settled.
\<close>

datatype promise = Fulfilled cell | Rejected exn | Pending

text \<open>\<^verbatim>\<open>NotifierCell | Promise<NotifierCell>\<close>\<close>

datatype lazy_cell = Cell cell | Deferred promise

text \<open>
  Everything observable is recorded in one trace, in the order it happens: the two calls
  the helper makes on the host connection, the remote calls the closures send, and (as a
  ghost event) each call of a closure.
\<close>

datatype event = PauseNotification | ResumeNotification | RemoteCall string | Invoked callback

record world =
  notifyFns :: "ref \<Rightarrow> callback list"
  nextRef :: ref
  trace :: "event list"

text \<open>The outcome of an \<^verbatim>\<open>async\<close> function, as seen by the caller that awaits it.\<close>

datatype 'a completion = Resolves 'a | RejectsWith exn | NeverSettles

text \<open>
  What \<^verbatim>\<open>run\<close> and \<^verbatim>\<open>runAll\<close> resolve with: \<^verbatim>\<open>undefined\<close>, or the completion signal
  of the host's \<^verbatim>\<open>resumeNotification\<close>.
\<close>

datatype signal = NoValue | Flushed

subsection \<open>The host connection\<close>

text \<open>
  Modelled from the spec: \<^verbatim>\<open>workspace.nvim\<close> belongs to the editor library and is not
  part of the sources. Section 6 of the specification gives its contract:
  \<^verbatim>\<open>pauseNotification()\<close> begins queuing and returns nothing.
\<close>

definition pauseNotification :: "world \<Rightarrow> world" where
  "pauseNotification w = w\<lparr>trace := trace w @ [PauseNotification]\<rparr>"

text \<open>
  Modelled from the spec: \<^verbatim>\<open>resumeNotification()\<close> flushes the queued calls as one unit and
  returns a completion signal the caller can await.
\<close>

definition resumeNotification :: "world \<Rightarrow> signal completion \<times> world" where
  "resumeNotification w = (Resolves Flushed, w\<lparr>trace := trace w @ [ResumeNotification]\<rparr>)"

text \<open>
  Modelled from the spec: the batching window is the interval between a pause and the
  next resume; \<open>host_paused p es\<close> tells whether the host is paused after the events
  \<open>es\<close> when it was in state \<open>p\<close> before them.
\<close>

fun host_paused :: "bool \<Rightarrow> event list \<Rightarrow> bool" where
  "host_paused p [] = p"
| "host_paused p (PauseNotification # es) = host_paused True es"
| "host_paused p (ResumeNotification # es) = host_paused False es"
| "host_paused p (RemoteCall c # es) = host_paused p es"
| "host_paused p (Invoked fn # es) = host_paused p es"

text \<open>The events that reach the host (everything but the ghost events).\<close>

fun is_host_call :: "event \<Rightarrow> bool" where
  "is_host_call (Invoked fn) = False"
| "is_host_call e = True"

definition host_calls :: "event list \<Rightarrow> event list" where
  "host_calls es = filter is_host_call es"

subsection \<open>Calling a closure\<close>

definition invoke_events :: "callback \<Rightarrow> event list" where
  "invoke_events fn = Invoked fn # map RemoteCall (cb_calls fn)"

text \<open>The call \<^verbatim>\<open>fn()\<close>: \<open>Inl e\<close> when it throws \<open>e\<close>, \<open>Inr ()\<close> when it returns.\<close>

definition call :: "callback \<Rightarrow> world \<Rightarrow> (exn + unit) \<times> world" where
  "call fn w =
     (case cb_throws fn of Some e \<Rightarrow> Inl e | None \<Rightarrow> Inr (),
      w\<lparr>trace := trace w @ invoke_events fn\<rparr>)"

text \<open>The closure \<^verbatim>\<open>() => {}\<close> of \<^verbatim>\<open>combine\<close>.\<close>

definition noop :: callback where
  "noop = Callback [] None"

subsection \<open>The class\<close>

text \<open>
  \<^verbatim>\<open>static create(notify)\<close> with the constructor: a new object whose \<^verbatim>\<open>notifyFns\<close>
  starts as \<^verbatim>\<open>[]\<close> and receives \<^verbatim>\<open>push(notify)\<close>.
\<close>

definition create :: "callback \<Rightarrow> world \<Rightarrow> ref \<times> world" where
  "create notify w =
     (nextRef w,
      w\<lparr>notifyFns := (notifyFns w)(nextRef w := [] @ [notify]), nextRef := Suc (nextRef w)\<rparr>)"

text \<open>
  \<^verbatim>\<open>notify()\<close>: \<^verbatim>\<open>for (const fn of this.notifyFns) fn();\<close> An exception leaves the loop.
\<close>

fun notify_loop :: "callback list \<Rightarrow> world \<Rightarrow> (exn + unit) \<times> world" where
  "notify_loop [] w = (Inr (), w)"
| "notify_loop (fn # fns) w =
     (case call fn w of
        (Inl e, w') \<Rightarrow> (Inl e, w')
      | (Inr u, w') \<Rightarrow> notify_loop fns w')"

definition notify :: "ref \<Rightarrow> world \<Rightarrow> (exn + unit) \<times> world" where
  "notify this w = notify_loop (notifyFns w this) w"

text \<open>
  \<^verbatim>\<open>concat(notifier)\<close>: \<^verbatim>\<open>this.notifyFns.push(...notifier.notifyFns); return this;\<close>
  The spread reads the operand's array completely before \<^verbatim>\<open>push\<close> runs, also when the
  operand is the receiver.
\<close>

definition concat_notifier :: "ref \<Rightarrow> ref \<Rightarrow> world \<Rightarrow> ref \<times> world" where
  "concat_notifier this notifier w =
     (this, w\<lparr>notifyFns := (notifyFns w)(this := notifyFns w this @ notifyFns w notifier)\<rparr>)"

text \<open>
  \<^verbatim>\<open>static notifyAll(lazyNotifies)\<close>: \<^verbatim>\<open>for (const n of lazyNotifies) if (n) n.notify();\<close>
\<close>

fun notifyAll :: "cell list \<Rightarrow> world \<Rightarrow> (exn + unit) \<times> world" where
  "notifyAll [] w = (Inr (), w)"
| "notifyAll (Present n # ns) w =
     (case notify n w of
        (Inl e, w') \<Rightarrow> (Inl e, w')
      | (Inr u, w') \<Rightarrow> notifyAll ns w')"
| "notifyAll (Undefined # ns) w = notifyAll ns w"
| "notifyAll (Null # ns) w = notifyAll ns w"

text \<open>
  \<^verbatim>\<open>Promise.all\<close> of the language: a value that is not a promise counts as fulfilled; the
  result rejects as soon as one element rejects, stays pending while an element is pending
  and none rejects, and otherwise fulfils with the values in input order. When several
  elements reject, the model reports the first in input order (the language reports the
  first in time).
\<close>

fun settle :: "lazy_cell \<Rightarrow> promise" where
  "settle (Cell c) = Fulfilled c"
| "settle (Deferred p) = p"

fun promise_all :: "lazy_cell list \<Rightarrow> cell list completion" where
  "promise_all [] = Resolves []"
| "promise_all (p # ps) =
     (case settle p of
        Rejected e \<Rightarrow> RejectsWith e
      | Pending \<Rightarrow> (case promise_all ps of RejectsWith e \<Rightarrow> RejectsWith e | _ \<Rightarrow> NeverSettles)
      | Fulfilled c \<Rightarrow>
          (case promise_all ps of
             Resolves cs \<Rightarrow> Resolves (c # cs)
           | RejectsWith e \<Rightarrow> RejectsWith e
           | NeverSettles \<Rightarrow> NeverSettles))"

text \<open>
  \<^verbatim>\<open>static async runAll(notifierPromises)\<close>: await \<^verbatim>\<open>Promise.all\<close>, pause, \<^verbatim>\<open>notifyAll\<close>,
  return the result of resume. There is no \<^verbatim>\<open>try\<close> in the source: an exception of
  \<^verbatim>\<open>notifyAll\<close> rejects the promise of \<^verbatim>\<open>runAll\<close> at once.
\<close>

definition runAll :: "lazy_cell list \<Rightarrow> world \<Rightarrow> signal completion \<times> world" where
  "runAll notifierPromises w =
     (case promise_all notifierPromises of
        RejectsWith e \<Rightarrow> (RejectsWith e, w)
      | NeverSettles \<Rightarrow> (NeverSettles, w)
      | Resolves notifiers \<Rightarrow>
          (case notifyAll notifiers (pauseNotification w) of
             (Inl e, w') \<Rightarrow> (RejectsWith e, w')
           | (Inr u, w') \<Rightarrow> resumeNotification w'))"

text \<open>The instance method \<^verbatim>\<open>async run()\<close>: \<^verbatim>\<open>return Notifier.runAll([this]);\<close>\<close>

definition run :: "ref \<Rightarrow> world \<Rightarrow> signal completion \<times> world" where
  "run this w = runAll [Cell (Present this)] w"

text \<open>
  \<^verbatim>\<open>static async run(notifierPromise)\<close>: an absent argument returns at once; a promise is
  awaited and its Notifier, if present, is run; a Notifier is run.
\<close>

fun Notifier_run :: "lazy_cell \<Rightarrow> world \<Rightarrow> signal completion \<times> world" where
  "Notifier_run (Cell Undefined) w = (Resolves NoValue, w)"
| "Notifier_run (Cell Null) w = (Resolves NoValue, w)"
| "Notifier_run (Deferred (Fulfilled (Present lazy))) w = run lazy w"
| "Notifier_run (Deferred (Fulfilled Undefined)) w = (Resolves NoValue, w)"
| "Notifier_run (Deferred (Fulfilled Null)) w = (Resolves NoValue, w)"
| "Notifier_run (Deferred (Rejected e)) w = (RejectsWith e, w)"
| "Notifier_run (Deferred Pending) w = (NeverSettles, w)"
| "Notifier_run (Cell (Present n)) w = run n w"

text \<open>lodash's \<^verbatim>\<open>compact\<close> on cells: the Notifier objects are the truthy entries.\<close>

fun compact :: "cell list \<Rightarrow> ref list" where
  "compact [] = []"
| "compact (Present n # cs) = n # compact cs"
| "compact (Undefined # cs) = compact cs"
| "compact (Null # cs) = compact cs"

text \<open>
  \<^verbatim>\<open>rest.reduce((ret, cur) => ret.concat(cur), first)\<close>, the fold of \<^verbatim>\<open>combine\<close>.
\<close>

fun reduce_concat :: "ref list \<Rightarrow> ref \<Rightarrow> world \<Rightarrow> ref \<times> world" where
  "reduce_concat [] ret w = (ret, w)"
| "reduce_concat (cur # rest) ret w =
     (case concat_notifier ret cur w of (ret', w') \<Rightarrow> reduce_concat rest ret' w')"

text \<open>\<^verbatim>\<open>static combine(notifiers)\<close>\<close>

definition combine :: "cell list \<Rightarrow> world \<Rightarrow> ref \<times> world" where
  "combine notifiers w =
     (let safeNotifiers = compact notifiers in
      if length safeNotifiers < 1 then create noop w
      else if length safeNotifiers = 1 then (safeNotifiers ! 0, w)
      else reduce_concat (drop 1 safeNotifiers) (safeNotifiers ! 0) w)"

subsection \<open>Specification functions\<close>

text \<open>\<^verbatim>\<open>(x.concat(y)).concat(z)\<close> and \<^verbatim>\<open>x.concat(y.concat(z))\<close>, each from the same store.\<close>

definition concat_left :: "ref \<Rightarrow> ref \<Rightarrow> ref \<Rightarrow> world \<Rightarrow> ref \<times> world" where
  "concat_left x y z w = (case concat_notifier x y w of (xy, w') \<Rightarrow> concat_notifier xy z w')"

definition concat_right :: "ref \<Rightarrow> ref \<Rightarrow> ref \<Rightarrow> world \<Rightarrow> ref \<times> world" where
  "concat_right x y z w = (case concat_notifier y z w of (yz, w') \<Rightarrow> concat_notifier x yz w')"

text \<open>The callback sequence of a returned Notifier, read in the store returned with it.\<close>

definition sequence_of :: "ref \<times> world \<Rightarrow> callback list" where
  "sequence_of rw = notifyFns (snd rw) (fst rw)"

text \<open>
  A call of the public interface. A history of calls is well typed when every Notifier
  passed to a call exists at that moment.
\<close>

datatype api_call =
  Create callback | Concat ref ref | Combine "cell list" | Notify ref | RunAll "lazy_cell list"

fun present_exists :: "world \<Rightarrow> promise \<Rightarrow> bool" where
  "present_exists w (Fulfilled (Present n)) = (n < nextRef w)"
| "present_exists w p = True"

fun well_typed :: "api_call \<Rightarrow> world \<Rightarrow> bool" where
  "well_typed (Create fn) w = True"
| "well_typed (Concat x y) w = (x < nextRef w \<and> y < nextRef w)"
| "well_typed (Combine cells) w = list_all (\<lambda>n. n < nextRef w) (compact cells)"
| "well_typed (Notify n) w = (n < nextRef w)"
| "well_typed (RunAll ps) w = list_all (present_exists w) (map settle ps)"

fun perform :: "api_call \<Rightarrow> world \<Rightarrow> world" where
  "perform (Create fn) w = snd (create fn w)"
| "perform (Concat x y) w = snd (concat_notifier x y w)"
| "perform (Combine cells) w = snd (combine cells w)"
| "perform (Notify n) w = snd (notify n w)"
| "perform (RunAll ps) w = snd (runAll ps w)"

fun perform_all :: "api_call list \<Rightarrow> world \<Rightarrow> world option" where
  "perform_all [] w = Some w"
| "perform_all (c # cs) w = (if well_typed c w then perform_all cs (perform c w) else None)"

text \<open>Every existing Notifier holds at least one callback.\<close>

definition nonempty_sequences :: "world \<Rightarrow> bool" where
  "nonempty_sequences w = (\<forall>n. n < nextRef w \<longrightarrow> notifyFns w n \<noteq> [])"


text \<open>
  What a run of the loop of \<^verbatim>\<open>notify\<close> over a callback sequence yields and which events it
  adds: the closures are called in order up to and including the first that throws.
\<close>

fun loop_result :: "callback list \<Rightarrow> exn + unit" where
  "loop_result [] = Inr ()"
| "loop_result (fn # fns) = (case cb_throws fn of Some e \<Rightarrow> Inl e | None \<Rightarrow> loop_result fns)"

fun loop_events :: "callback list \<Rightarrow> event list" where
  "loop_events [] = []"
| "loop_events (fn # fns) =
     invoke_events fn @ (case cb_throws fn of Some e \<Rightarrow> [] | None \<Rightarrow> loop_events fns)"

text \<open>The closures called according to a trace, in the order of the calls.\<close>

fun invocations :: "event list \<Rightarrow> callback list" where
  "invocations [] = []"
| "invocations (Invoked fn # es) = fn # invocations es"
| "invocations (PauseNotification # es) = invocations es"
| "invocations (ResumeNotification # es) = invocations es"
| "invocations (RemoteCall c # es) = invocations es"

text \<open>The empty store: no Notifier allocated, nothing observed yet.\<close>

definition empty_world :: world where
  "empty_world = \<lparr>notifyFns = (\<lambda>r. []), nextRef = 0, trace = []\<rparr>"

subsection \<open>Example stores\<close>

text \<open>
  The closures of the specification's scenario, one closure that throws, and two stores
  built with \<^verbatim>\<open>create\<close>: in both, Notifier 0 and Notifier 1 exist.
\<close>

definition cursor :: callback where
  "cursor = Callback [''cursor''] None"

definition highlight :: callback where
  "highlight = Callback [''highlight''] None"

definition buffer :: callback where
  "buffer = Callback [''buffer''] None"

definition failing :: callback where
  "failing = Callback [''cursor''] (Some ''boom'')"

definition two_notifiers :: world where
  "two_notifiers = snd (create highlight (snd (create cursor empty_world)))"

definition failing_world :: world where
  "failing_world = snd (create highlight (snd (create failing empty_world)))"

definition three_notifiers :: world where
  "three_notifiers = snd (create buffer two_notifiers)"

text \<open>
  Three Notifiers of which Notifier 0 holds the closure that throws, and the same store
  after \<^verbatim>\<open>n0.concat(n1)\<close>, where Notifier 0 holds the throwing closure followed by another.
\<close>

definition failing_three :: world where
  "failing_three = snd (create buffer failing_world)"

definition chained_failing :: world where
  "chained_failing = snd (concat_notifier 0 1 failing_three)"

section \<open>Properties\<close>

subsection \<open>Auxiliary facts\<close>

lemma notify_loop_eq:
  "notify_loop fns w = (loop_result fns, w\<lparr>trace := trace w @ loop_events fns\<rparr>)"
proof (induction fns arbitrary: w)
  case Nil
  show ?case by simp
next
  case (Cons fn fns)
  show ?case
    by (cases "cb_throws fn") (simp_all add: call_def Cons.IH)
qed

lemma loop_result_append:
  "loop_result (xs @ ys) = (case loop_result xs of Inl e \<Rightarrow> Inl e | Inr u \<Rightarrow> loop_result ys)"
  by (induction xs) (simp_all split: option.splits)

lemma loop_events_append:
  "loop_events (xs @ ys) =
     loop_events xs @ (case loop_result xs of Inl e \<Rightarrow> [] | Inr u \<Rightarrow> loop_events ys)"
  by (induction xs) (simp_all split: option.splits)

text \<open>
  \<^verbatim>\<open>notifyAll\<close> behaves as one loop over the callbacks of the present entries, taken from
  the store at entry (calling closures does not change the store).
\<close>

lemma notifyAll_eq:
  "notifyAll cs w = notify_loop (concat (map (notifyFns w) (compact cs))) w"
proof (induction cs arbitrary: w)
  case Nil
  show ?case by simp
next
  case (Cons c cs)
  show ?case
  proof (cases c)
    case (Present n)
    show ?thesis
      by (cases "loop_result (notifyFns w n)")
         (simp_all add: Present notify_def notify_loop_eq Cons.IH
            loop_result_append loop_events_append)
  next
    case Undefined
    then show ?thesis by (simp add: Cons.IH)
  next
    case Null
    then show ?thesis by (simp add: Cons.IH)
  qed
qed

lemma loop_result_no_throw:
  "\<forall>fn \<in> set fns. cb_throws fn = None \<Longrightarrow> loop_result fns = Inr ()"
  by (induction fns) simp_all

lemma loop_events_no_throw:
  "\<forall>fn \<in> set fns. cb_throws fn = None \<Longrightarrow> loop_events fns = concat (map invoke_events fns)"
  by (induction fns) simp_all

lemma host_paused_append: "host_paused p (xs @ ys) = host_paused (host_paused p xs) ys"
  by (induction p xs rule: host_paused.induct) simp_all

lemma host_paused_remote_calls: "host_paused p (map RemoteCall cs) = p"
  by (induction cs) simp_all

lemma host_paused_invoke_events: "host_paused p (invoke_events fn) = p"
  by (simp add: invoke_events_def host_paused_remote_calls)

lemma host_paused_loop_events: "host_paused p (loop_events fns) = p"
  by (induction fns) (simp_all add: host_paused_append host_paused_invoke_events split: option.splits)

lemma loop_events_no_window_call:
  "PauseNotification \<notin> set (loop_events fns) \<and> ResumeNotification \<notin> set (loop_events fns)"
  by (induction fns) (auto simp: invoke_events_def split: option.splits)

lemma promise_all_fulfilled:
  "map settle ps = map Fulfilled cells \<Longrightarrow> promise_all ps = Resolves cells"
proof (induction ps arbitrary: cells)
  case Nil
  then show ?case by simp
next
  case (Cons p ps)
  from Cons.prems obtain c cs where cells: "cells = c # cs"
    and p: "settle p = Fulfilled c" and ps: "map settle ps = map Fulfilled cs"
    by (cases cells) auto
  from Cons.IH [OF ps] p show ?case by (simp add: cells)
qed

lemma promise_all_rejected:
  "Deferred (Rejected e) \<in> set ps \<Longrightarrow>
     \<exists>e'. Deferred (Rejected e') \<in> set ps \<and> promise_all ps = RejectsWith e'"
proof (induction ps)
  case Nil
  then show ?case by simp
next
  case (Cons p ps)
  show ?case
  proof (cases "p = Deferred (Rejected e)")
    case True
    then show ?thesis by auto
  next
    case False
    with Cons.prems have "Deferred (Rejected e) \<in> set ps" by simp
    then obtain e' where e': "Deferred (Rejected e') \<in> set ps" "promise_all ps = RejectsWith e'"
      using Cons.IH by blast
    show ?thesis
    proof (cases "settle p")
      case (Fulfilled c)
      with e' show ?thesis by auto
    next
      case (Rejected d)
      then have "p = Deferred (Rejected d)" by (cases p) auto
      with Rejected show ?thesis by auto
    next
      case Pending
      with e' show ?thesis by auto
    qed
  qed
qed

lemma runAll_resolved:
  "promise_all ps = Resolves cells \<Longrightarrow>
   runAll ps w =
     (case loop_result (concat (map (notifyFns w) (compact cells))) of
        Inl e \<Rightarrow> (RejectsWith e,
                   w\<lparr>trace := trace w @ PauseNotification #
                       loop_events (concat (map (notifyFns w) (compact cells)))\<rparr>)
      | Inr u \<Rightarrow> (Resolves Flushed,
                   w\<lparr>trace := trace w @ PauseNotification #
                       loop_events (concat (map (notifyFns w) (compact cells))) @
                       [ResumeNotification]\<rparr>))"
  by (simp add: runAll_def notifyAll_eq notify_loop_eq pauseNotification_def
        resumeNotification_def split: sum.splits)

lemma count_list_invoke_events:
  "count_list (invoke_events fn) PauseNotification = 0 \<and>
   count_list (invoke_events fn) ResumeNotification = 0"
  by (simp add: invoke_events_def count_list_0_iff image_iff)

lemma count_list_concat_invoke_events:
  "count_list (concat (map invoke_events fns)) PauseNotification = 0 \<and>
   count_list (concat (map invoke_events fns)) ResumeNotification = 0"
  by (induction fns) (simp_all add: count_list_invoke_events)

lemma concat_map_concat:
  "concat (map (\<lambda>n. concat (map g (f n))) ns) = concat (map g (concat (map f ns)))"
  by (induction ns) simp_all

lemma compact_map_Present: "compact (map Present ns) = ns"
  by (induction ns) simp_all

lemma reduce_concat_eq:
  "ret \<notin> set rest \<Longrightarrow>
   reduce_concat rest ret w =
     (ret, w\<lparr>notifyFns := (notifyFns w)
               (ret := notifyFns w ret @ concat (map (notifyFns w) rest))\<rparr>)"
proof (induction rest arbitrary: w)
  case Nil
  show ?case by simp
next
  case (Cons cur rest)
  then have rest: "ret \<notin> set rest" and cur: "cur \<noteq> ret" by auto
  let ?w = "w\<lparr>notifyFns := (notifyFns w)(ret := notifyFns w ret @ notifyFns w cur)\<rparr>"
  have m: "map ((notifyFns w)(ret := notifyFns w ret @ notifyFns w cur)) rest =
             map (notifyFns w) rest"
    using rest by (induction rest) auto
  have "reduce_concat (cur # rest) ret w = reduce_concat rest ret ?w"
    by (simp add: concat_notifier_def)
  also have "\<dots> = (ret, ?w\<lparr>notifyFns := (notifyFns ?w)
               (ret := notifyFns ?w ret @ concat (map (notifyFns ?w) rest))\<rparr>)"
    by (rule Cons.IH [OF rest])
  also have "\<dots> = (ret, w\<lparr>notifyFns := (notifyFns w)
               (ret := notifyFns w ret @ concat (map (notifyFns w) (cur # rest)))\<rparr>)"
    using cur by (simp add: m)
  finally show ?case .
qed

lemma combine_compact: "combine cells w = combine (map Present (compact cells)) w"
  by (simp add: combine_def compact_map_Present)

lemma notify_frame:
  "notifyFns (snd (notify n w)) = notifyFns w \<and> nextRef (snd (notify n w)) = nextRef w"
  by (simp add: notify_def notify_loop_eq)

lemma runAll_frame:
  "notifyFns (snd (runAll ps w)) = notifyFns w \<and> nextRef (snd (runAll ps w)) = nextRef w"
proof (cases "promise_all ps")
  case (Resolves cells)
  from runAll_resolved [OF this, of w] show ?thesis
    by (simp split: sum.splits)
next
  case (RejectsWith e)
  then show ?thesis by (simp add: runAll_def)
next
  case NeverSettles
  then show ?thesis by (simp add: runAll_def)
qed

lemma reduce_concat_nonempty:
  "nonempty_sequences w \<Longrightarrow> ret < nextRef w \<Longrightarrow>
     nonempty_sequences (snd (reduce_concat rest ret w)) \<and>
     nextRef (snd (reduce_concat rest ret w)) = nextRef w \<and>
     fst (reduce_concat rest ret w) = ret"
proof (induction rest arbitrary: w)
  case Nil
  then show ?case by simp
next
  case (Cons cur rest)
  let ?w = "w\<lparr>notifyFns := (notifyFns w)(ret := notifyFns w ret @ notifyFns w cur)\<rparr>"
  have "nonempty_sequences ?w" and "ret < nextRef ?w"
    using Cons.prems by (simp_all add: nonempty_sequences_def)
  from Cons.IH [OF this] show ?case
    by (simp add: concat_notifier_def)
qed

lemma combine_exists:
  assumes "nonempty_sequences w" and "well_typed (Combine cells) w"
  shows "fst (combine cells w) < nextRef (snd (combine cells w))"
proof (cases "compact cells")
  case Nil
  then show ?thesis by (simp add: combine_def create_def)
next
  case (Cons n ns)
  with assms(2) have "n < nextRef w" by simp
  from reduce_concat_nonempty [OF assms(1) this, of ns] this Cons
  show ?thesis
    by (cases ns) (simp_all add: combine_def)
qed

lemma combine_trace: "trace (snd (combine cells w)) = trace w"
proof -
  have "trace (snd (reduce_concat rest ret v)) = trace v" for rest ret v
    by (induction rest arbitrary: v) (simp_all add: concat_notifier_def)
  then show ?thesis
    by (simp add: combine_def Let_def create_def)
qed

lemma perform_nonempty:
  assumes "nonempty_sequences w" and "well_typed c w"
  shows "nonempty_sequences (perform c w)"
proof (cases c)
  case (Create fn)
  with assms(1) show ?thesis
    by (auto simp: nonempty_sequences_def create_def less_Suc_eq)
next
  case (Concat x y)
  with assms show ?thesis
    by (simp add: nonempty_sequences_def concat_notifier_def)
next
  case (Combine cells)
  show ?thesis
  proof (cases "compact cells")
    case Nil
    with assms(1) Combine show ?thesis
      by (auto simp: nonempty_sequences_def combine_def create_def less_Suc_eq)
  next
    case (Cons n ns)
    with assms(2) Combine have "n < nextRef w" by simp
    from reduce_concat_nonempty [OF assms(1) this, of ns] assms(1) Combine Cons
    show ?thesis
      by (cases ns) (simp_all add: combine_def)
  qed
next
  case (Notify n)
  with assms(1) show ?thesis
    by (simp add: nonempty_sequences_def notify_frame)
next
  case (RunAll ps)
  with assms(1) show ?thesis
    by (simp add: nonempty_sequences_def runAll_frame)
qed

lemma perform_all_nonempty:
  "nonempty_sequences w \<Longrightarrow> perform_all calls w = Some w' \<Longrightarrow> nonempty_sequences w'"
proof (induction calls arbitrary: w)
  case Nil
  then show ?case by simp
next
  case (Cons c calls)
  from Cons.prems(2) have wt: "well_typed c w" and rest: "perform_all calls (perform c w) = Some w'"
    by (simp_all split: if_splits)
  from Cons.IH [OF perform_nonempty [OF Cons.prems(1) wt] rest] show ?case .
qed

lemma invocations_append: "invocations (xs @ ys) = invocations xs @ invocations ys"
  by (induction xs rule: invocations.induct) simp_all

lemma invocations_remote_calls: "invocations (map RemoteCall cs) = []"
  by (induction cs) simp_all

lemma invocations_invoke_events: "invocations (invoke_events fn) = [fn]"
  by (simp add: invoke_events_def invocations_remote_calls)

lemma invocations_concat_invoke_events:
  "invocations (concat (map invoke_events fns)) = fns"
  by (induction fns) (simp_all add: invocations_append invocations_invoke_events)

lemma promise_all_settle:
  "promise_all ps = Resolves cells \<Longrightarrow> map settle ps = map Fulfilled cells"
proof (induction ps arbitrary: cells)
  case Nil
  then show ?case by simp
next
  case (Cons p ps)
  show ?case
  proof (cases "settle p")
    case (Fulfilled c)
    with Cons.prems obtain cs where "promise_all ps = Resolves cs" and "cells = c # cs"
      by (cases "promise_all ps") simp_all
    with Cons.IH [of cs] Fulfilled show ?thesis by simp
  next
    case (Rejected e)
    with Cons.prems show ?thesis by simp
  next
    case Pending
    with Cons.prems show ?thesis
      by (cases "promise_all ps") simp_all
  qed
qed

lemma runAll_unresolved:
  assumes "q \<in> set qs" and "\<forall>c. settle q \<noteq> Fulfilled c"
  shows "snd (runAll qs v) = v \<and> (\<forall>s. fst (runAll qs v) \<noteq> Resolves s)"
proof -
  have "promise_all qs \<noteq> Resolves cells" for cells
  proof
    assume "promise_all qs = Resolves cells"
    then have "map settle qs = map Fulfilled cells" by (rule promise_all_settle)
    moreover from assms(1) have "settle q \<in> set (map settle qs)" by simp
    ultimately have "settle q \<in> set (map Fulfilled cells)" by simp
    with assms(2) show False by auto
  qed
  then have ne: "\<forall>cells. promise_all qs \<noteq> Resolves cells" by blast
  show ?thesis
  proof (cases "promise_all qs")
    case (Resolves cells)
    with ne show ?thesis by blast
  next
    case (RejectsWith e)
    then show ?thesis by (simp add: runAll_def)
  next
    case NeverSettles
    then show ?thesis by (simp add: runAll_def)
  qed
qed

lemma runAll_needs_resolution:
  "\<forall>cells. promise_all ps \<noteq> Resolves cells \<Longrightarrow> runAll ps w = (fst (runAll ps w), w)"
  by (cases "promise_all ps") (simp_all add: runAll_def)

subsection \<open>The empty batch\<close>

text \<open>
  Claim C9. \<^verbatim>\<open>runAll([])\<close> calls no \<^verbatim>\<open>notify\<close> and no closure and completes successfully:
  it resolves with the host's completion signal, and the only events are one pause
  followed by one resume.
\<close>

theorem runAll_empty:
  "runAll [] w = (Resolves Flushed, w\<lparr>trace := trace w @ [PauseNotification, ResumeNotification]\<rparr>)"
  by (simp add: runAll_def pauseNotification_def resumeNotification_def)

subsection \<open>A closure that throws inside the window\<close>

text \<open>
  Claim C1 asks that an exception of a closure is caught, the window closed by exactly one
  \<^verbatim>\<open>resumeNotification\<close>, and the exception then passed on. The source has no
  \<^verbatim>\<open>try\<close>: in the store \<open>failing_world\<close>, whose Notifier 0 holds a closure that
  throws, \<^verbatim>\<open>runAll([n0])\<close> rejects with that exception after the pause, no resume is
  sent, and the host is left paused.
\<close>

theorem runAll_notify_throws_counterexample:
  "fst (runAll [Cell (Present 0)] failing_world) = RejectsWith ''boom'' \<and>
   trace (snd (runAll [Cell (Present 0)] failing_world)) =
     [PauseNotification, Invoked failing, RemoteCall ''cursor''] \<and>
   count_list (trace (snd (runAll [Cell (Present 0)] failing_world))) ResumeNotification = 0 \<and>
   host_paused False (trace (snd (runAll [Cell (Present 0)] failing_world)))"
  by (simp add: runAll_def notify_def call_def invoke_events_def pauseNotification_def
        failing_world_def create_def empty_world_def failing_def highlight_def)

text \<open>
  Claim C1, as the source behaves. When every element resolves and a closure throws
  \<open>e\<close> during \<^verbatim>\<open>notifyAll\<close>, then \<^verbatim>\<open>runAll\<close> rejects with \<open>e\<close> in the state in
  which the closure threw: the new events are the pause followed by the closure calls up
  to the one that threw, no \<^verbatim>\<open>resumeNotification\<close> is among them, and the host is paused
  whatever its state was before.
\<close>

theorem runAll_notify_throws:
  assumes "promise_all ps = Resolves cells"
      and "notifyAll cells (pauseNotification w) = (Inl e, w')"
  shows "runAll ps w = (RejectsWith e, w') \<and>
         trace w' = trace w @ PauseNotification #
                      loop_events (concat (map (notifyFns w) (compact cells))) \<and>
         ResumeNotification \<notin> set (loop_events (concat (map (notifyFns w) (compact cells)))) \<and>
         host_paused p (trace w')"
proof -
  let ?fns = "concat (map (notifyFns w) (compact cells))"
  from assms(2) have r: "loop_result ?fns = Inl e"
    and w': "w' = w\<lparr>trace := trace w @ PauseNotification # loop_events ?fns\<rparr>"
    by (simp_all add: notifyAll_eq notify_loop_eq pauseNotification_def)
  have "runAll ps w = (RejectsWith e, w')"
    using assms(1) r w' by (simp add: runAll_resolved)
  moreover have "trace w' = trace w @ PauseNotification # loop_events ?fns"
    using w' by simp
  moreover have "ResumeNotification \<notin> set (loop_events ?fns)"
    by (simp add: loop_events_no_window_call)
  moreover have "host_paused p (trace w')"
    using w' by (simp add: host_paused_append host_paused_loop_events)
  ultimately show ?thesis by blast
qed

theorem runAll_notify_throws_witness:
  "runAll [Cell (Present 0), Deferred (Fulfilled (Present 1))] failing_world =
     (RejectsWith ''boom'',
      failing_world\<lparr>trace := [PauseNotification, Invoked failing, RemoteCall ''cursor'']\<rparr>)"
proof -
  have a: "promise_all [Cell (Present 0), Deferred (Fulfilled (Present 1))] =
             Resolves [Present 0, Present 1]"
    by simp
  have b: "notifyAll [Present 0, Present 1] (pauseNotification failing_world) =
             (Inl ''boom'',
              failing_world\<lparr>trace := [PauseNotification, Invoked failing, RemoteCall ''cursor'']\<rparr>)"
    by (simp add: notify_def call_def invoke_events_def pauseNotification_def
          failing_world_def create_def empty_world_def failing_def highlight_def)
  show ?thesis using runAll_notify_throws [OF a b] by simp
qed

subsection \<open>A resolution that fails\<close>

text \<open>
  Claim C2. If the input of \<^verbatim>\<open>runAll\<close> contains a deferred cell whose promise rejects,
  \<^verbatim>\<open>runAll\<close> rejects with the reason of a rejected element and the world is unchanged: no
  pause, no resume, no closure call, no change of any Notifier. The static \<^verbatim>\<open>run\<close> on a
  rejected promise does the same.
\<close>

theorem runAll_rejected_resolution:
  assumes "Deferred (Rejected e) \<in> set ps"
  shows "(\<exists>e'. Deferred (Rejected e') \<in> set ps \<and> runAll ps w = (RejectsWith e', w)) \<and>
         Notifier_run (Deferred (Rejected e)) w = (RejectsWith e, w)"
proof -
  obtain e' where "Deferred (Rejected e') \<in> set ps" "promise_all ps = RejectsWith e'"
    using promise_all_rejected [OF assms] by blast
  then show ?thesis by (auto simp: runAll_def)
qed

theorem runAll_rejected_resolution_witness:
  "runAll [Cell (Present 0), Deferred (Rejected ''late''), Cell (Present 1)] two_notifiers =
     (RejectsWith ''late'', two_notifiers)"
proof -
  have "Deferred (Rejected ''late'') \<in>
          set [Cell (Present 0), Deferred (Rejected ''late''), Cell (Present 1)]"
    by simp
  from runAll_rejected_resolution [OF this, of two_notifiers]
  show ?thesis by auto
qed

subsection \<open>One window for a batch\<close>

text \<open>
  Claim C3. When every element of the input resolves (to \<open>cells\<close>, in input order) and
  no closure of a present Notifier throws, \<^verbatim>\<open>runAll\<close> resolves, and the events it adds
  are: one \<^verbatim>\<open>pauseNotification\<close>, then for each present Notifier in the order of the
  resolved array the calls of its closures in sequence order, then one
  \<^verbatim>\<open>resumeNotification\<close>. Absent slots contribute nothing. Pause and resume occur exactly
  once among the new events. (The input list may also be empty.) The window is opened
  only after every deferred cell is resolved: as long as some element \<open>q\<close> of an input
  \<open>qs\<close> is not fulfilled (it is pending or rejected), \<^verbatim>\<open>runAll\<close> does not resolve and
  leaves the world as it was, without a pause.
\<close>

theorem runAll_batches:
  "(promise_all ps = Resolves cells \<longrightarrow>
    (\<forall>n \<in> set (compact cells). \<forall>fn \<in> set (notifyFns w n). cb_throws fn = None) \<longrightarrow>
      runAll ps w =
        (Resolves Flushed,
         w\<lparr>trace := trace w @ [PauseNotification] @
            concat (map (\<lambda>n. concat (map invoke_events (notifyFns w n))) (compact cells)) @
            [ResumeNotification]\<rparr>) \<and>
      count_list ([PauseNotification] @
            concat (map (\<lambda>n. concat (map invoke_events (notifyFns w n))) (compact cells)) @
            [ResumeNotification]) PauseNotification = 1 \<and>
      count_list ([PauseNotification] @
            concat (map (\<lambda>n. concat (map invoke_events (notifyFns w n))) (compact cells)) @
            [ResumeNotification]) ResumeNotification = 1) \<and>
   (q \<in> set qs \<longrightarrow> (\<forall>c. settle q \<noteq> Fulfilled c) \<longrightarrow>
      snd (runAll qs v) = v \<and> (\<forall>s. fst (runAll qs v) \<noteq> Resolves s))"
proof -
  let ?fns = "concat (map (notifyFns w) (compact cells))"
  let ?evs = "concat (map (\<lambda>n. concat (map invoke_events (notifyFns w n))) (compact cells))"
  have ev: "?evs = concat (map invoke_events ?fns)"
    by (rule concat_map_concat)
  have batch: "runAll ps w =
          (Resolves Flushed, w\<lparr>trace := trace w @ [PauseNotification] @ ?evs @
              [ResumeNotification]\<rparr>) \<and>
        count_list ([PauseNotification] @ ?evs @ [ResumeNotification]) PauseNotification = 1 \<and>
        count_list ([PauseNotification] @ ?evs @ [ResumeNotification]) ResumeNotification = 1"
    if res: "promise_all ps = Resolves cells"
      and quiet: "\<forall>n \<in> set (compact cells). \<forall>fn \<in> set (notifyFns w n). cb_throws fn = None"
  proof -
    have nt: "\<forall>fn \<in> set ?fns. cb_throws fn = None"
      using quiet by auto
    have "runAll ps w =
            (Resolves Flushed,
             w\<lparr>trace := trace w @ [PauseNotification] @ concat (map invoke_events ?fns) @
                [ResumeNotification]\<rparr>)"
      using res loop_result_no_throw [OF nt] loop_events_no_throw [OF nt]
      by (simp add: runAll_resolved)
    then show ?thesis
      by (simp add: ev count_list_concat_invoke_events)
  qed
  have wait: "snd (runAll qs v) = v \<and> (\<forall>s. fst (runAll qs v) \<noteq> Resolves s)"
    if "q \<in> set qs" and "\<forall>c. settle q \<noteq> Fulfilled c"
    using that by (rule runAll_unresolved)
  from batch wait show ?thesis by blast
qed

theorem runAll_batches_witness:
  "runAll [Deferred (Fulfilled (Present 0)), Deferred (Fulfilled Null), Cell (Present 1)]
     two_notifiers =
   (Resolves Flushed,
    two_notifiers\<lparr>trace := [PauseNotification, Invoked cursor, RemoteCall ''cursor'',
       Invoked highlight, RemoteCall ''highlight'', ResumeNotification]\<rparr>) \<and>
   runAll [Cell (Present 0), Deferred Pending] two_notifiers = (NeverSettles, two_notifiers)"
proof -
  have a: "promise_all [Deferred (Fulfilled (Present 0)), Deferred (Fulfilled Null),
             Cell (Present 1)] = Resolves [Present 0, Null, Present 1]"
    by simp
  have b: "\<forall>n \<in> set (compact [Present 0, Null, Present 1]).
             \<forall>fn \<in> set (notifyFns two_notifiers n). cb_throws fn = None"
    by (simp add: two_notifiers_def create_def empty_world_def cursor_def highlight_def)
  have c: "Deferred Pending \<in> set [Cell (Present 0), Deferred Pending]"
    by simp
  have d: "\<forall>c. settle (Deferred Pending) \<noteq> Fulfilled c"
    by simp
  note t = runAll_batches [where ps = "[Deferred (Fulfilled (Present 0)),
    Deferred (Fulfilled Null), Cell (Present 1)]" and cells = "[Present 0, Null, Present 1]"
    and w = two_notifiers and q = "Deferred Pending"
    and qs = "[Cell (Present 0), Deferred Pending]" and v = two_notifiers]
  have "runAll [Deferred (Fulfilled (Present 0)), Deferred (Fulfilled Null), Cell (Present 1)]
          two_notifiers =
        (Resolves Flushed,
         two_notifiers\<lparr>trace := [PauseNotification, Invoked cursor, RemoteCall ''cursor'',
           Invoked highlight, RemoteCall ''highlight'', ResumeNotification]\<rparr>)"
    using mp [OF mp [OF conjunct1 [OF t] a] b]
    by (simp add: two_notifiers_def create_def empty_world_def invoke_events_def
          cursor_def highlight_def)
  moreover have "snd (runAll [Cell (Present 0), Deferred Pending] two_notifiers) = two_notifiers"
    using mp [OF mp [OF conjunct2 [OF t] c] d] by simp
  moreover have "fst (runAll [Cell (Present 0), Deferred Pending] two_notifiers) = NeverSettles"
    by (simp add: runAll_def)
  ultimately show ?thesis
    by (simp add: prod_eq_iff)
qed

subsection \<open>\<^verbatim>\<open>combine\<close> on no and on one present entry\<close>

text \<open>
  Claim C4. When no entry of the list is present, \<^verbatim>\<open>combine\<close> returns a new Notifier (the
  reference \<open>nextRef w\<close>, which no existing Notifier has) whose sequence is the single
  closure \<^verbatim>\<open>() => {}\<close>. Calling \<^verbatim>\<open>notify\<close> on it returns normally, calls that one closure,
  sends nothing to the host and changes no Notifier.
\<close>

theorem combine_empty:
  assumes "compact cells = []"
  shows "combine cells w =
           (nextRef w,
            w\<lparr>notifyFns := (notifyFns w)(nextRef w := [noop]), nextRef := Suc (nextRef w)\<rparr>) \<and>
         notify (fst (combine cells w)) (snd (combine cells w)) =
           (Inr (), (snd (combine cells w))\<lparr>trace := trace w @ [Invoked noop]\<rparr>) \<and>
         host_calls (trace (snd (notify (fst (combine cells w)) (snd (combine cells w))))) =
           host_calls (trace w) \<and>
         notifyFns (snd (notify (fst (combine cells w)) (snd (combine cells w)))) =
           notifyFns (snd (combine cells w))"
  using assms
  by (simp add: combine_def create_def notify_def call_def invoke_events_def noop_def
        host_calls_def)

theorem combine_empty_witness:
  "combine [Null, Undefined] two_notifiers =
     (2, two_notifiers\<lparr>notifyFns := (notifyFns two_notifiers)(2 := [noop]), nextRef := 3\<rparr>)"
proof -
  have "compact [Null, Undefined] = []" by simp
  from combine_empty [OF this, of two_notifiers]
  show ?thesis
    by (simp add: two_notifiers_def create_def empty_world_def numeral_2_eq_2 numeral_3_eq_3)
qed

text \<open>
  Claim C5. When exactly one entry \<open>n\<close> of the list is present, \<^verbatim>\<open>combine\<close> returns
  \<open>n\<close> itself and leaves the world as it was.
\<close>

theorem combine_single:
  assumes "compact cells = [n]"
  shows "combine cells w = (n, w)"
  using assms by (simp add: combine_def)

theorem combine_single_witness:
  "combine [Null, Present 1, Undefined] two_notifiers = (1, two_notifiers)"
proof -
  have "compact [Null, Present 1, Undefined] = [1]" by simp
  from combine_single [OF this] show ?thesis .
qed

subsection \<open>\<^verbatim>\<open>combine\<close> on three entries\<close>

text \<open>
  Claim C6 speaks of all Notifiers \<open>a\<close>, \<open>b\<close>, \<open>c\<close>. It fails when the first entry
  is also the last: \<^verbatim>\<open>combine([a, b, a])\<close> first makes \<open>a\<close>'s sequence \<open>a\<close>'s then
  \<open>b\<close>'s, and then appends that whole sequence to itself, so \<^verbatim>\<open>notify\<close> calls \<open>b\<close>'s
  closure twice. It also fails when a closure throws: with three different Notifiers of
  which the second holds a closure that throws, \<^verbatim>\<open>notify\<close> on the result throws there and
  the closure of the third is never called.
\<close>

theorem combine_three_counterexample:
  "sequence_of (combine [Present 0, Present 1, Present 0] two_notifiers) =
     [cursor, highlight, cursor, highlight] \<and>
   invocations (trace (snd (notify 0 (snd (combine [Present 0, Present 1, Present 0]
     two_notifiers))))) = [cursor, highlight, cursor, highlight] \<and>
   sequence_of (combine [Present 1, Present 0, Present 2] failing_three) =
     [highlight, failing, buffer] \<and>
   fst (notify 1 (snd (combine [Present 1, Present 0, Present 2] failing_three))) =
     Inl ''boom'' \<and>
   invocations (trace (snd (notify 1 (snd (combine [Present 1, Present 0, Present 2]
     failing_three))))) = [highlight, failing]"
  by (simp add: sequence_of_def combine_def concat_notifier_def notify_def call_def
        invoke_events_def two_notifiers_def failing_three_def failing_world_def create_def
        empty_world_def cursor_def highlight_def failing_def buffer_def numeral_2_eq_2)

text \<open>
  Claim C6, as the source behaves. When \<open>a\<close> is a different object from \<open>c\<close> (\<open>b\<close> is
  any Notifier, also \<open>a\<close> or \<open>c\<close>), \<^verbatim>\<open>combine([a, b, c])\<close> returns \<open>a\<close>, whose sequence
  has become \<open>a\<close>'s, then \<open>b\<close>'s, then \<open>c\<close>'s callbacks, and \<^verbatim>\<open>notify\<close> on the result
  runs the loop over that sequence: it calls the closures in that order up to and
  including the first that throws. When moreover none of them throws, \<^verbatim>\<open>notify\<close> returns
  normally and has called exactly \<open>a\<close>'s, then \<open>b\<close>'s, then \<open>c\<close>'s closures, each once.
  Without any condition, \<^verbatim>\<open>combine\<close> gives for every list of cells the same result and the
  same store as on the list of its present entries.
\<close>

theorem combine_three:
  "(a \<noteq> c \<longrightarrow>
      combine [Present a, Present b, Present c] w =
        (a, w\<lparr>notifyFns := (notifyFns w)
                (a := notifyFns w a @ notifyFns w b @ notifyFns w c)\<rparr>) \<and>
      notify (fst (combine [Present a, Present b, Present c] w))
             (snd (combine [Present a, Present b, Present c] w)) =
        (loop_result (notifyFns w a @ notifyFns w b @ notifyFns w c),
         (snd (combine [Present a, Present b, Present c] w))
           \<lparr>trace := trace w @
              loop_events (notifyFns w a @ notifyFns w b @ notifyFns w c)\<rparr>)) \<and>
   (a \<noteq> c \<longrightarrow>
    (\<forall>fn \<in> set (notifyFns w a @ notifyFns w b @ notifyFns w c). cb_throws fn = None) \<longrightarrow>
      notify (fst (combine [Present a, Present b, Present c] w))
             (snd (combine [Present a, Present b, Present c] w)) =
        (Inr (), (snd (combine [Present a, Present b, Present c] w))
           \<lparr>trace := trace w @
              concat (map invoke_events (notifyFns w a @ notifyFns w b @ notifyFns w c))\<rparr>) \<and>
      invocations (trace (snd (notify (fst (combine [Present a, Present b, Present c] w))
             (snd (combine [Present a, Present b, Present c] w))))) =
        invocations (trace w) @ notifyFns w a @ notifyFns w b @ notifyFns w c) \<and>
   combine cells v = combine (map Present (compact cells)) v"
proof -
  let ?fns = "notifyFns w a @ notifyFns w b @ notifyFns w c"
  let ?r = "combine [Present a, Present b, Present c] w"
  have c: "?r = (a, w\<lparr>notifyFns := (notifyFns w)(a := ?fns)\<rparr>)" if "a \<noteq> c"
    using that by (simp add: combine_def concat_notifier_def)
  have n: "notify (fst ?r) (snd ?r) =
             (loop_result ?fns, (snd ?r)\<lparr>trace := trace w @ loop_events ?fns\<rparr>)" if "a \<noteq> c"
    by (simp add: c [OF that] notify_def notify_loop_eq)
  have q: "notify (fst ?r) (snd ?r) =
             (Inr (), (snd ?r)\<lparr>trace := trace w @ concat (map invoke_events ?fns)\<rparr>) \<and>
           invocations (trace (snd (notify (fst ?r) (snd ?r)))) = invocations (trace w) @ ?fns"
    if ac: "a \<noteq> c" and nt: "\<forall>fn \<in> set ?fns. cb_throws fn = None"
    using n [OF ac] loop_result_no_throw [OF nt] loop_events_no_throw [OF nt]
    by (simp add: invocations_append invocations_concat_invoke_events)
  have f: "combine cells v = combine (map Present (compact cells)) v"
    by (rule combine_compact)
  from c n q f show ?thesis by blast
qed

theorem combine_three_witness:
  "combine [Present 0, Present 1, Present 2] three_notifiers =
     (0, three_notifiers\<lparr>notifyFns := (notifyFns three_notifiers)
           (0 := [cursor, highlight, buffer])\<rparr>) \<and>
   invocations (trace (snd (notify
     (fst (combine [Present 0, Present 1, Present 2] three_notifiers))
     (snd (combine [Present 0, Present 1, Present 2] three_notifiers))))) =
     [cursor, highlight, buffer]"
proof -
  have a: "(0::ref) \<noteq> 2" by simp
  have f: "notifyFns three_notifiers 0 @ notifyFns three_notifiers 1 @
             notifyFns three_notifiers 2 = [cursor, highlight, buffer]"
    by (simp add: three_notifiers_def two_notifiers_def create_def empty_world_def)
  have t: "trace three_notifiers = []"
    by (simp add: three_notifiers_def two_notifiers_def create_def empty_world_def)
  have c: "\<forall>fn \<in> set (notifyFns three_notifiers 0 @ notifyFns three_notifiers 1 @
               notifyFns three_notifiers 2). cb_throws fn = None"
    unfolding f by (simp add: cursor_def highlight_def buffer_def)
  note th = combine_three [where a = 0 and b = 1 and c = 2 and w = three_notifiers
    and cells = "[]" and v = three_notifiers]
  from mp [OF conjunct1 [OF th] a]
  have 1: "combine [Present 0, Present 1, Present 2] three_notifiers =
     (0, three_notifiers\<lparr>notifyFns := (notifyFns three_notifiers)
           (0 := [cursor, highlight, buffer])\<rparr>)"
    unfolding f by (rule conjunct1)
  from mp [OF mp [OF conjunct1 [OF conjunct2 [OF th]] a] c]
  have 2: "invocations (trace (snd (notify
     (fst (combine [Present 0, Present 1, Present 2] three_notifiers))
     (snd (combine [Present 0, Present 1, Present 2] three_notifiers))))) =
     [cursor, highlight, buffer]"
    unfolding f t by (simp add: invocations_append invocations_invoke_events)
  from 1 2 show ?thesis by (rule conjI)
qed

subsection \<open>\<^verbatim>\<open>concat\<close>\<close>

text \<open>
  Claim C7 states associativity for all \<open>x\<close>, \<open>y\<close>, \<open>z\<close>. Since \<^verbatim>\<open>concat\<close> changes its
  receiver, it fails when the receiver is also exactly one of the operands: with
  \<open>x = y\<close>, the left grouping yields \<open>x x z\<close> and the right grouping \<open>x z x z\<close>; with
  \<open>x = z\<close>, the left grouping yields \<open>x y x y\<close> and the right grouping \<open>x y x\<close>.
\<close>

theorem concat_assoc_counterexample:
  "sequence_of (concat_left 0 0 1 two_notifiers) = [cursor, cursor, highlight] \<and>
   sequence_of (concat_right 0 0 1 two_notifiers) = [cursor, highlight, cursor, highlight] \<and>
   sequence_of (concat_left 0 0 1 two_notifiers) \<noteq>
     sequence_of (concat_right 0 0 1 two_notifiers) \<and>
   sequence_of (concat_left 0 1 0 two_notifiers) = [cursor, highlight, cursor, highlight] \<and>
   sequence_of (concat_right 0 1 0 two_notifiers) = [cursor, highlight, cursor] \<and>
   sequence_of (concat_left 0 1 0 two_notifiers) \<noteq>
     sequence_of (concat_right 0 1 0 two_notifiers)"
  by (simp add: concat_notifier_def concat_left_def concat_right_def sequence_of_def
        two_notifiers_def create_def empty_world_def)

text \<open>
  Claim C7, as the source behaves. For all \<open>x\<close> and \<open>y\<close> (also equal ones),
  \<^verbatim>\<open>x.concat(y)\<close> returns the receiver \<open>x\<close>, whose sequence has become \<open>x\<close>'s former
  sequence followed by \<open>y\<close>'s former sequence, and nothing else changes. For all \<open>x\<close>,
  \<open>y\<close>, \<open>z\<close>, both groupings of a double \<^verbatim>\<open>concat\<close> return \<open>x\<close>. The left grouping
  leaves \<open>x\<close> with \<open>x\<close>'s, then \<open>y\<close>'s, then \<open>z\<close>'s callbacks when \<open>x\<close> is a different
  object from \<open>z\<close>; the right grouping does so when \<open>x\<close> is a different object from
  \<open>y\<close>. The two groupings leave \<open>x\<close> with the same sequence when \<open>x\<close> is different from
  both \<open>y\<close> and \<open>z\<close>, or the same object as both.
\<close>

theorem concat_assoc:
  "concat_notifier x y w =
     (x, w\<lparr>notifyFns := (notifyFns w)(x := notifyFns w x @ notifyFns w y)\<rparr>) \<and>
   sequence_of (concat_notifier x y w) = notifyFns w x @ notifyFns w y \<and>
   fst (concat_left x y z w) = x \<and> fst (concat_right x y z w) = x \<and>
   (x \<noteq> z \<longrightarrow>
      sequence_of (concat_left x y z w) = notifyFns w x @ notifyFns w y @ notifyFns w z) \<and>
   (x \<noteq> y \<longrightarrow>
      sequence_of (concat_right x y z w) = notifyFns w x @ notifyFns w y @ notifyFns w z) \<and>
   ((x = y) = (x = z) \<longrightarrow>
      sequence_of (concat_right x y z w) = sequence_of (concat_left x y z w))"
proof -
  have 1: "concat_notifier x y w =
     (x, w\<lparr>notifyFns := (notifyFns w)(x := notifyFns w x @ notifyFns w y)\<rparr>)"
    by (simp add: concat_notifier_def)
  have 2: "sequence_of (concat_notifier x y w) = notifyFns w x @ notifyFns w y"
    by (simp add: concat_notifier_def sequence_of_def)
  have 3: "fst (concat_left x y z w) = x" and 4: "fst (concat_right x y z w) = x"
    by (simp_all add: concat_notifier_def concat_left_def concat_right_def)
  have 5: "sequence_of (concat_left x y z w) = notifyFns w x @ notifyFns w y @ notifyFns w z"
    if "x \<noteq> z"
    using that by (simp add: concat_notifier_def concat_left_def sequence_of_def)
  have 6: "sequence_of (concat_right x y z w) = notifyFns w x @ notifyFns w y @ notifyFns w z"
    if "x \<noteq> y"
    using that by (simp add: concat_notifier_def concat_right_def sequence_of_def)
  have 7: "sequence_of (concat_right x y z w) = sequence_of (concat_left x y z w)"
    if "(x = y) = (x = z)"
  proof (cases "x = y")
    case True
    with that have "x = z" by simp
    with True show ?thesis
      by (simp add: concat_notifier_def concat_left_def concat_right_def sequence_of_def)
  next
    case False
    with that have "x \<noteq> z" by simp
    with False 5 6 show ?thesis by simp
  qed
  from 1 2 3 4 5 6 7 show ?thesis by blast
qed

theorem concat_assoc_witness:
  "sequence_of (concat_left 0 1 2 three_notifiers) = [cursor, highlight, buffer] \<and>
   sequence_of (concat_right 0 1 2 three_notifiers) = [cursor, highlight, buffer] \<and>
   sequence_of (concat_right 0 1 2 three_notifiers) =
     sequence_of (concat_left 0 1 2 three_notifiers)"
proof -
  have a: "(0::ref) \<noteq> 2" and b: "(0::ref) \<noteq> 1" and c: "((0::ref) = 1) = ((0::ref) = 2)"
    by simp_all
  have f: "notifyFns three_notifiers 0 @ notifyFns three_notifiers 1 @
             notifyFns three_notifiers 2 = [cursor, highlight, buffer]"
    by (simp add: three_notifiers_def two_notifiers_def create_def empty_world_def)
  note th = concat_assoc [where x = 0 and y = 1 and z = 2 and w = three_notifiers, unfolded f]
  from th a b c show ?thesis by blast
qed

text \<open>
  Claim C10 says that \<^verbatim>\<open>a.concat(b)\<close> leaves \<open>b\<close>'s sequence unchanged for all \<open>a\<close> and
  \<open>b\<close>, and that \<^verbatim>\<open>a.notify()\<close> and \<^verbatim>\<open>b.notify()\<close> together run each of \<open>b\<close>'s callbacks
  twice. With \<open>b = a\<close> the operand is the receiver and its sequence doubles. When a
  closure of \<open>a\<close> throws, \<^verbatim>\<open>a.notify()\<close> never reaches the copies of \<open>b\<close>'s closures, so
  \<open>b\<close>'s closure runs once in total. And when the first of two closures of \<open>b\<close> throws,
  neither \<^verbatim>\<open>a.notify()\<close> nor \<^verbatim>\<open>b.notify()\<close> reaches the second, which never runs.
\<close>

theorem concat_keeps_operand_counterexample:
  "notifyFns two_notifiers 0 = [cursor] \<and>
   notifyFns (snd (concat_notifier 0 0 two_notifiers)) 0 = [cursor, cursor] \<and>
   fst (notify 0 (snd (concat_notifier 0 1 failing_world))) = Inl ''boom'' \<and>
   invocations (trace (snd (notify 1 (snd (notify 0 (snd (concat_notifier 0 1
     failing_world))))))) = [failing, highlight] \<and>
   notifyFns chained_failing 0 = [failing, highlight] \<and>
   notifyFns chained_failing 2 = [buffer] \<and>
   invocations (trace (snd (notify 0 (snd (notify 2 (snd (concat_notifier 2 0
     chained_failing))))))) = [buffer, failing, failing]"
  by (simp add: concat_notifier_def notify_def call_def invoke_events_def
        two_notifiers_def chained_failing_def failing_three_def failing_world_def
        create_def empty_world_def cursor_def highlight_def failing_def buffer_def
        numeral_2_eq_2)

text \<open>
  Claim C10, as the source behaves. When \<open>a\<close> and \<open>b\<close> are different objects,
  \<^verbatim>\<open>a.concat(b)\<close> leaves \<open>b\<close>'s sequence as it was, \<^verbatim>\<open>b.notify()\<close> afterwards has the
  outcome and the trace it has without the \<^verbatim>\<open>concat\<close>, and \<^verbatim>\<open>a.notify()\<close> followed by
  \<^verbatim>\<open>b.notify()\<close> runs the loop first over \<open>a\<close>'s then \<open>b\<close>'s callbacks and then over
  \<open>b\<close>'s callbacks, each loop up to and including the first closure that throws. When
  moreover no closure of \<open>b\<close> throws, \<^verbatim>\<open>b.notify()\<close> returns normally and has called
  exactly \<open>b\<close>'s original callbacks. When no closure of \<open>a\<close> or \<open>b\<close> throws, the two
  triggers together call \<open>a\<close>'s closures once and each of \<open>b\<close>'s closures twice.
\<close>

theorem concat_keeps_operand:
  "(a \<noteq> b \<longrightarrow>
      notifyFns (snd (concat_notifier a b w)) b = notifyFns w b \<and>
      notify b (snd (concat_notifier a b w)) =
        (fst (notify b w), (snd (concat_notifier a b w))\<lparr>trace := trace (snd (notify b w))\<rparr>) \<and>
      trace (snd (notify b (snd (notify a (snd (concat_notifier a b w)))))) =
        trace w @ loop_events (notifyFns w a @ notifyFns w b) @ loop_events (notifyFns w b)) \<and>
   (a \<noteq> b \<longrightarrow> (\<forall>fn \<in> set (notifyFns w b). cb_throws fn = None) \<longrightarrow>
      notify b (snd (concat_notifier a b w)) =
        (Inr (), (snd (concat_notifier a b w))
           \<lparr>trace := trace w @ concat (map invoke_events (notifyFns w b))\<rparr>) \<and>
      invocations (trace (snd (notify b (snd (concat_notifier a b w))))) =
        invocations (trace w) @ notifyFns w b) \<and>
   (a \<noteq> b \<longrightarrow> (\<forall>fn \<in> set (notifyFns w a @ notifyFns w b). cb_throws fn = None) \<longrightarrow>
      trace (snd (notify b (snd (notify a (snd (concat_notifier a b w)))))) =
        trace w @ concat (map invoke_events (notifyFns w a @ notifyFns w b)) @
          concat (map invoke_events (notifyFns w b)) \<and>
      invocations (trace (snd (notify b (snd (notify a (snd (concat_notifier a b w))))))) =
        invocations (trace w) @ notifyFns w a @ notifyFns w b @ notifyFns w b)"
proof -
  let ?w = "snd (concat_notifier a b w)"
  have 1: "notifyFns ?w b = notifyFns w b \<and>
           notify b ?w = (fst (notify b w), ?w\<lparr>trace := trace (snd (notify b w))\<rparr>) \<and>
           trace (snd (notify b (snd (notify a ?w)))) =
             trace w @ loop_events (notifyFns w a @ notifyFns w b) @ loop_events (notifyFns w b)"
    if "a \<noteq> b"
    using that by (simp add: concat_notifier_def notify_def notify_loop_eq)
  have 2: "notify b ?w =
             (Inr (), ?w\<lparr>trace := trace w @ concat (map invoke_events (notifyFns w b))\<rparr>) \<and>
           invocations (trace (snd (notify b ?w))) = invocations (trace w) @ notifyFns w b"
    if ab: "a \<noteq> b" and nb: "\<forall>fn \<in> set (notifyFns w b). cb_throws fn = None"
    using ab loop_result_no_throw [OF nb] loop_events_no_throw [OF nb]
    by (simp add: concat_notifier_def notify_def notify_loop_eq invocations_append
          invocations_concat_invoke_events)
  have 3: "trace (snd (notify b (snd (notify a ?w)))) =
             trace w @ concat (map invoke_events (notifyFns w a @ notifyFns w b)) @
               concat (map invoke_events (notifyFns w b)) \<and>
           invocations (trace (snd (notify b (snd (notify a ?w))))) =
             invocations (trace w) @ notifyFns w a @ notifyFns w b @ notifyFns w b"
    if ab: "a \<noteq> b"
      and nt: "\<forall>fn \<in> set (notifyFns w a @ notifyFns w b). cb_throws fn = None"
  proof -
    from nt have nb: "\<forall>fn \<in> set (notifyFns w b). cb_throws fn = None" by simp
    have "trace (snd (notify b (snd (notify a ?w)))) =
             trace w @ concat (map invoke_events (notifyFns w a @ notifyFns w b)) @
               concat (map invoke_events (notifyFns w b))"
      using conjunct2 [OF conjunct2 [OF 1 [OF ab]]]
        loop_events_no_throw [OF nt] loop_events_no_throw [OF nb]
      by simp
    then show ?thesis
      by (simp add: invocations_append invocations_concat_invoke_events)
  qed
  from 1 2 3 show ?thesis by blast
qed

theorem concat_keeps_operand_witness:
  "notifyFns (snd (concat_notifier 0 1 two_notifiers)) 1 = [highlight] \<and>
   invocations (trace (snd (notify 1 (snd (concat_notifier 0 1 two_notifiers))))) =
     [highlight] \<and>
   invocations (trace (snd (notify 1 (snd (notify 0 (snd (concat_notifier 0 1
     two_notifiers))))))) = [cursor, highlight, highlight]"
proof -
  have a: "(0::ref) \<noteq> 1" by simp
  have f: "notifyFns two_notifiers 0 = [cursor]" "notifyFns two_notifiers 1 = [highlight]"
    "trace two_notifiers = []"
    by (simp_all add: two_notifiers_def create_def empty_world_def)
  have b: "\<forall>fn \<in> set (notifyFns two_notifiers 1). cb_throws fn = None"
    unfolding f by (simp add: highlight_def)
  have c: "\<forall>fn \<in> set (notifyFns two_notifiers 0 @ notifyFns two_notifiers 1).
             cb_throws fn = None"
    unfolding f by (simp add: cursor_def highlight_def)
  note th = concat_keeps_operand [where a = 0 and b = 1 and w = two_notifiers]
  from mp [OF conjunct1 [OF th] a]
  have 1: "notifyFns (snd (concat_notifier 0 1 two_notifiers)) 1 = [highlight]"
    unfolding f by (rule conjunct1)
  from mp [OF mp [OF conjunct1 [OF conjunct2 [OF th]] a] b]
  have 2: "invocations (trace (snd (notify 1 (snd (concat_notifier 0 1 two_notifiers))))) =
     [highlight]"
    unfolding f by (simp add: invocations_invoke_events)
  from mp [OF mp [OF conjunct2 [OF conjunct2 [OF th]] a] c]
  have 3: "invocations (trace (snd (notify 1 (snd (notify 0 (snd (concat_notifier 0 1
     two_notifiers))))))) = [cursor, highlight, highlight]"
    unfolding f by (simp add: invocations_append invocations_invoke_events)
  from 1 2 3 show ?thesis by blast
qed

subsection \<open>The invariant of the factory operations\<close>

text \<open>
  Claim C8. In every store reached from the empty one by a well-typed history of
  \<^verbatim>\<open>create\<close>, \<^verbatim>\<open>concat\<close>, \<^verbatim>\<open>combine\<close>, \<^verbatim>\<open>notify\<close> and \<^verbatim>\<open>runAll\<close> calls, every
  existing Notifier has a nonempty callback sequence, and so has the Notifier returned by
  a further \<^verbatim>\<open>create\<close>, \<^verbatim>\<open>concat\<close> or \<^verbatim>\<open>combine\<close>; the one made by \<^verbatim>\<open>create(fn)\<close> has
  exactly the sequence \<^verbatim>\<open>[fn]\<close>. And \<^verbatim>\<open>create\<close>, \<^verbatim>\<open>concat\<close> and \<^verbatim>\<open>combine\<close> add no
  event to the trace: they call no closure and send nothing to the host.
\<close>

theorem factory_nonempty:
  assumes "perform_all calls empty_world = Some w"
  shows "nonempty_sequences w \<and>
         sequence_of (create fn w) = [fn] \<and>
         trace (snd (create fn w)) = trace w \<and>
         (well_typed (Concat x y) w \<longrightarrow> sequence_of (concat_notifier x y w) \<noteq> []) \<and>
         trace (snd (concat_notifier x y w)) = trace w \<and>
         (well_typed (Combine cells) w \<longrightarrow> sequence_of (combine cells w) \<noteq> []) \<and>
         trace (snd (combine cells w)) = trace w"
proof -
  have "nonempty_sequences empty_world"
    by (simp add: nonempty_sequences_def empty_world_def)
  from perform_all_nonempty [OF this assms] have w: "nonempty_sequences w" .
  have "sequence_of (combine cells w) \<noteq> []" if wt: "well_typed (Combine cells) w"
  proof -
    from perform_nonempty [OF w wt]
    have "nonempty_sequences (snd (combine cells w))" by simp
    with combine_exists [OF w wt] show ?thesis
      by (simp add: nonempty_sequences_def sequence_of_def)
  qed
  moreover have "sequence_of (concat_notifier x y w) \<noteq> []" if "well_typed (Concat x y) w"
    using w that by (simp add: nonempty_sequences_def sequence_of_def concat_notifier_def)
  ultimately show ?thesis
    using w by (simp add: combine_trace sequence_of_def create_def concat_notifier_def)
qed

theorem factory_nonempty_witness:
  "sequence_of (concat_notifier 1 1 two_notifiers) \<noteq> [] \<and>
   sequence_of (combine [Present 1, Null, Present 0, Present 1] two_notifiers) \<noteq> [] \<and>
   notifyFns two_notifiers 0 \<noteq> [] \<and> notifyFns two_notifiers 1 \<noteq> []"
proof -
  have h: "perform_all [Create cursor, Create highlight] empty_world = Some two_notifiers"
    by (simp add: two_notifiers_def)
  have n: "nextRef two_notifiers = 2"
    by (simp add: two_notifiers_def create_def empty_world_def)
  have c: "well_typed (Concat 1 1) two_notifiers"
    and d: "well_typed (Combine [Present 1, Null, Present 0, Present 1]) two_notifiers"
    by (simp_all add: n)
  from factory_nonempty [OF h, of cursor 1 1 "[Present 1, Null, Present 0, Present 1]"] c d
  show ?thesis
    by (simp add: nonempty_sequences_def n less_Suc_eq numeral_2_eq_2)
qed

end
